theory Spec2Isabelle
  imports Complex_Main
begin

section \<open>Texts\<close>

text \<open>
  A JavaScript string is modelled as a \<^typ>\<open>string\<close> whose characters are the code
  units U+0000 .. U+00FF. On that range \<^verbatim>\<open>toLowerCase\<close> maps A-Z and the
  upper-case letters U+00C0 .. U+00DE (but not the multiplication sign U+00D7) to the
  code unit 32 higher; the regular expression class \<^verbatim>\<open>\s\<close> holds tab, line feed,
  vertical tab, form feed, carriage return, space and the no-break space U+00A0; and
  \<^verbatim>\<open>\w\<close> is \<^verbatim>\<open>[A-Za-z0-9_]\<close>.
\<close>

definition toLowerChar :: "char \<Rightarrow> char" where
  "toLowerChar c =
     (let n = (of_char c :: nat)
      in if (65 \<le> n \<and> n \<le> 90) \<or> (192 \<le> n \<and> n \<le> 222 \<and> n \<noteq> 215)
         then char_of (n + 32) else c)"

definition toLowerCase :: "string \<Rightarrow> string" where
  "toLowerCase s = map toLowerChar s"

definition isSpace :: "char \<Rightarrow> bool" where
  "isSpace c = ((of_char c :: nat) \<in> {9, 10, 11, 12, 13, 32, 160})"

definition isWordChar :: "char \<Rightarrow> bool" where
  "isWordChar c =
     (let n = (of_char c :: nat)
      in (48 \<le> n \<and> n \<le> 57) \<or> (65 \<le> n \<and> n \<le> 90) \<or> n = 95 \<or> (97 \<le> n \<and> n \<le> 122))"

text \<open>
  \<^verbatim>\<open>s.split(/\s+/)\<close>: the pieces between maximal runs of whitespace. A run at the
  start or at the end of the text leaves an empty piece there, and the empty text
  splits into one empty piece. The first argument is the piece read so far, reversed.
\<close>

function splitWhitespace :: "string \<Rightarrow> string \<Rightarrow> string list" where
  "splitWhitespace acc [] = [rev acc]"
| "splitWhitespace acc (c # cs) =
     (if isSpace c then rev acc # splitWhitespace [] (dropWhile isSpace cs)
      else splitWhitespace (c # acc) cs)"
  by pat_completeness auto
termination
  by (relation "measure (\<lambda>(acc, cs). length cs)")
     (auto simp: less_Suc_eq_le length_dropWhile_le)

text \<open>\<^verbatim>\<open>s.includes(t)\<close>: \<open>t\<close> occurs in \<open>s\<close> as a contiguous piece.\<close>

fun startsWith :: "string \<Rightarrow> string \<Rightarrow> bool" where
  "startsWith s [] = True"
| "startsWith [] (d # ds) = False"
| "startsWith (c # cs) (d # ds) = (c = d \<and> startsWith cs ds)"

fun includesStr :: "string \<Rightarrow> string \<Rightarrow> bool" where
  "includesStr [] t = (t = [])"
| "includesStr (c # cs) t = (startsWith (c # cs) t \<or> includesStr cs t)"

section \<open>JavaScript sets\<close>

text \<open>
  A \<^verbatim>\<open>Set\<close> keeps its members in the order of their first insertion; it is a list
  without repetitions. \<open>setAdd\<close> is \<^verbatim>\<open>Set.prototype.add\<close> and \<open>newSet\<close> is
  \<^verbatim>\<open>new Set(array)\<close>.
\<close>

definition setAdd :: "'a \<Rightarrow> 'a list \<Rightarrow> 'a list" where
  "setAdd x xs = (if x \<in> set xs then xs else xs @ [x])"

definition newSet :: "'a list \<Rightarrow> 'a list" where
  "newSet xs = foldl (\<lambda>s x. setAdd x s) [] xs"

section \<open>Step deduplication (dedupe.js)\<close>

text \<open>
  The similarity is a quotient of two set sizes, computed by the source in double
  precision and compared with the literal 0.6. It is modelled by the exact rational:
  the division of two integers is correctly rounded and the literal is the double
  nearest to 3/5, so the comparison of the doubles agrees with the comparison of the
  rationals for every pair of sets with fewer than \<open>2^50\<close> members.
\<close>

definition STEP_SIMILARITY_THRESHOLD :: rat where
  "STEP_SIMILARITY_THRESHOLD = 6 / 10"

definition normalizeToTokens :: "string \<Rightarrow> string list" where
  "normalizeToTokens text =
     (if text = [] then []
      else filter (\<lambda>token. length token > 0)
             (splitWhitespace []
                (map (\<lambda>c. if \<not> isWordChar c \<and> \<not> isSpace c then CHR '' '' else c)
                   (toLowerCase text))))"

definition calculateJaccardSimilarity :: "string list \<Rightarrow> string list \<Rightarrow> rat" where
  "calculateJaccardSimilarity tokens1 tokens2 =
     (let set1 = newSet tokens1;
          set2 = newSet tokens2;
          intersection = newSet (filter (\<lambda>x. x \<in> set set2) set1);
          union = newSet (set1 @ set2)
      in if length union = 0 then 0
         else of_nat (length intersection) / of_nat (length union))"

definition areStepsSimilar :: "string \<Rightarrow> string \<Rightarrow> rat \<Rightarrow> bool" where
  "areStepsSimilar text1 text2 threshold =
     (if text1 = text2 then True
      else calculateJaccardSimilarity (normalizeToTokens text1) (normalizeToTokens text2)
             > threshold)"

text \<open>Of a step only the identifier and the text are read by the functions below.\<close>

record step =
  step_id :: string
  step_text :: string

text \<open>The skip set, as the list of its indices in increasing order.\<close>

definition findStepsToSkip :: "step list \<Rightarrow> string list \<Rightarrow> nat list" where
  "findStepsToSkip fallbackSteps completedStepTexts =
     filter (\<lambda>index.
        list_ex (\<lambda>completedText.
           areStepsSimilar (step_text (fallbackSteps ! index)) completedText
             STEP_SIMILARITY_THRESHOLD) completedStepTexts)
       [0 ..< length fallbackSteps]"

definition calculateKeywordOverlap :: "string list \<Rightarrow> string list \<Rightarrow> nat" where
  "calculateKeywordOverlap triggerKeywords queryTokens =
     (if triggerKeywords = [] then 0
      else if queryTokens = [] then 0
      else length (filter (\<lambda>keyword. toLowerCase keyword \<in> set (newSet queryTokens))
                     triggerKeywords))"

section \<open>Articles\<close>

text \<open>
  A field that the source guards against being absent (\<^verbatim>\<open>article.steps || []\<close>,
  \<^verbatim>\<open>if (article.tags)\<close>) is an option; \<open>None\<close> is \<^verbatim>\<open>undefined\<close>.
\<close>

record fallback =
  fb_id :: string
  reason_category :: string
  trigger_keywords :: "string list option"
  fb_steps :: "step list option"

record escalation =
  esc_when :: string
  esc_target :: string

record article =
  art_id :: int
  art_title :: "string option"
  art_tags :: "string list option"
  art_product :: "string option"
  art_keywords :: "string list option"
  art_steps :: "step list option"
  art_fallbacks :: "fallback list option"
  art_escalation :: "escalation option"

section \<open>The step runner (stepRunner.js)\<close>

record attempted_path =
  ap_path :: string
  ap_startedAt :: string

record failure =
  f_stepId :: string
  f_reasonCategory :: string
  f_note :: "string option"
  f_timestamp :: string

record run_state =
  selectedArticleId :: "int option"
  activePath :: string
  currentStepIndex :: nat
  completedStepIds :: "string list"
  attemptedPaths :: "attempted_path list"
  failureHistory :: "failure list"
  skippedStepsCount :: nat

text \<open>
  Every method takes the runner's state and returns the new one, next to the value the
  method returns. The time that \<^verbatim>\<open>new Date().toISOString()\<close> reads is an argument.
  An article argument of \<open>None\<close> is \<^verbatim>\<open>null\<close>.
\<close>

definition reset :: "run_state \<Rightarrow> run_state" where
  "reset s =
     \<lparr> selectedArticleId = None, activePath = ''main'', currentStepIndex = 0,
       completedStepIds = [], attemptedPaths = [], failureHistory = [],
       skippedStepsCount = 0 \<rparr>"

definition getStepsForActivePath :: "article option \<Rightarrow> run_state \<Rightarrow> step list" where
  "getStepsForActivePath article s =
     (case article of
        None \<Rightarrow> []
      | Some a \<Rightarrow>
          if activePath s = ''main'' then (case art_steps a of None \<Rightarrow> [] | Some ss \<Rightarrow> ss)
          else (case art_fallbacks a of
                  None \<Rightarrow> []
                | Some fbs \<Rightarrow>
                    (case find (\<lambda>f. fb_id f = activePath s) fbs of
                       None \<Rightarrow> []
                     | Some f \<Rightarrow> (case fb_steps f of None \<Rightarrow> [] | Some ss \<Rightarrow> ss))))"

definition getTotalSteps :: "article option \<Rightarrow> run_state \<Rightarrow> nat" where
  "getTotalSteps article s =
     (case article of
        None \<Rightarrow> 0
      | Some a \<Rightarrow>
          if activePath s = ''main'' then (case art_steps a of None \<Rightarrow> 0 | Some ss \<Rightarrow> length ss)
          else (case art_fallbacks a of
                  None \<Rightarrow> 0
                | Some fbs \<Rightarrow>
                    (case find (\<lambda>f. fb_id f = activePath s) fbs of
                       None \<Rightarrow> 0
                     | Some f \<Rightarrow> (case fb_steps f of None \<Rightarrow> 0 | Some ss \<Rightarrow> length ss))))"

definition getCurrentStep :: "article option \<Rightarrow> run_state \<Rightarrow> step option" where
  "getCurrentStep article s =
     (case article of
        None \<Rightarrow> None
      | Some a \<Rightarrow>
          (let steps = getStepsForActivePath article s
           in if currentStepIndex s \<ge> length steps then None
              else Some (steps ! currentStepIndex s)))"

record start_info =
  si_totalSteps :: nat
  si_currentStep :: "step option"

definition startArticle :: "int \<Rightarrow> article option \<Rightarrow> string \<Rightarrow> run_state \<Rightarrow> start_info \<times> run_state" where
  "startArticle articleId article now s =
     (let s1 = reset s;
          s2 = s1\<lparr> selectedArticleId := Some articleId \<rparr>;
          s3 = s2\<lparr> activePath := ''main'' \<rparr>;
          s4 = s3\<lparr> currentStepIndex := 0 \<rparr>;
          s5 = s4\<lparr> attemptedPaths :=
                     attemptedPaths s4 @ [\<lparr> ap_path = ''main'', ap_startedAt = now \<rparr>] \<rparr>
      in (\<lparr> si_totalSteps = getTotalSteps article s5,
            si_currentStep = getCurrentStep article s5 \<rparr>, s5))"

text \<open>
  What \<^verbatim>\<open>continue\<close> returns: \<open>AlreadyCompleted\<close> is the object
  \<^verbatim>\<open>{ completed: true }\<close>; \<open>Advanced\<close> carries \<^verbatim>\<open>completed\<close>,
  \<^verbatim>\<open>nextStep\<close>, \<^verbatim>\<open>currentStepIndex\<close> and \<^verbatim>\<open>totalSteps\<close>.
\<close>

datatype continue_result =
  AlreadyCompleted
| Advanced bool "step option" nat nat

definition continue :: "article option \<Rightarrow> run_state \<Rightarrow> continue_result \<times> run_state" where
  "continue article s =
     (case getCurrentStep article s of
        None \<Rightarrow> (AlreadyCompleted, s)
      | Some currentStep \<Rightarrow>
          (let s1 = s\<lparr> completedStepIds := setAdd (step_id currentStep) (completedStepIds s) \<rparr>;
               s2 = s1\<lparr> currentStepIndex := currentStepIndex s1 + 1 \<rparr>;
               steps = getStepsForActivePath article s2;
               isLastStep = (currentStepIndex s2 \<ge> length steps)
           in (Advanced isLastStep
                 (if isLastStep then None else getCurrentStep article s2)
                 (currentStepIndex s2)
                 (getTotalSteps article s2), s2)))"

text \<open>
  What \<^verbatim>\<open>back\<close> returns: \<open>BackOk i\<close> is \<^verbatim>\<open>{ success: true, currentStepIndex: i }\<close>,
  \<open>BackFailed\<close> is \<^verbatim>\<open>{ success: false, message: "Already at first step" }\<close>.
\<close>

datatype back_result = BackOk nat | BackFailed string

definition back_step :: "run_state \<Rightarrow> back_result \<times> run_state" where
  "back_step s =
     (if currentStepIndex s > 0
      then (let s1 = s\<lparr> currentStepIndex := currentStepIndex s - 1 \<rparr>
            in (BackOk (currentStepIndex s1), s1))
      else (BackFailed ''Already at first step'', s))"

definition back_success :: "back_result \<Rightarrow> bool" where
  "back_success r = (case r of BackOk i \<Rightarrow> True | BackFailed m \<Rightarrow> False)"

definition recordFailure ::
  "string \<Rightarrow> string \<Rightarrow> string option \<Rightarrow> string \<Rightarrow> run_state \<Rightarrow> failure \<times> run_state" where
  "recordFailure stepId reasonCategory note now s =
     (let failure = \<lparr> f_stepId = stepId, f_reasonCategory = reasonCategory,
                       f_note = note, f_timestamp = now \<rparr>
      in (failure, s\<lparr> failureHistory := failureHistory s @ [failure] \<rparr>))"

text \<open>
  The loop of \<^verbatim>\<open>switchToFallback\<close> that looks for the first index outside the skip
  set, from index \<open>i\<close> on; \<^verbatim>\<open>startIndex\<close> keeps its initial 0 when the loop ends
  without a \<^verbatim>\<open>break\<close>.
\<close>

function findStartIndex :: "nat list \<Rightarrow> nat \<Rightarrow> nat \<Rightarrow> nat" where
  "findStartIndex stepsToSkip n i =
     (if i < n
      then (if i \<notin> set stepsToSkip then i else findStartIndex stepsToSkip n (i + 1))
      else 0)"
  by pat_completeness auto
termination
  by (relation "measure (\<lambda>(stepsToSkip, n, i). n - i)") auto

declare findStartIndex.simps [simp del]

record switch_result =
  sr_totalSteps :: nat
  sr_currentStep :: "step option"
  sr_skippedSteps :: nat

definition switchToFallback ::
  "string \<Rightarrow> article option \<Rightarrow> string list \<Rightarrow> string \<Rightarrow> run_state
     \<Rightarrow> switch_result \<times> run_state" where
  "switchToFallback fallbackId article completedStepTexts now s =
     (let s1 = s\<lparr> activePath := fallbackId \<rparr>;
          s2 = s1\<lparr> attemptedPaths :=
                     attemptedPaths s1 @ [\<lparr> ap_path = fallbackId, ap_startedAt = now \<rparr>] \<rparr>;
          fallbackSteps = getStepsForActivePath article s2;
          stepsToSkip = findStepsToSkip fallbackSteps completedStepTexts;
          startIndex = findStartIndex stepsToSkip (length fallbackSteps) 0;
          consecutiveSkipped = startIndex;
          s3 = s2\<lparr> currentStepIndex := startIndex \<rparr>;
          s4 = s3\<lparr> skippedStepsCount := consecutiveSkipped \<rparr>
      in (\<lparr> sr_totalSteps = getTotalSteps article s4,
            sr_currentStep = getCurrentStep article s4,
            sr_skippedSteps = consecutiveSkipped \<rparr>, s4))"

definition clearSkippedStepsCount :: "run_state \<Rightarrow> run_state" where
  "clearSkippedStepsCount s = s\<lparr> skippedStepsCount := 0 \<rparr>"

definition getSkippedStepsCount :: "run_state \<Rightarrow> nat" where
  "getSkippedStepsCount s = skippedStepsCount s"

definition isComplete :: "article option \<Rightarrow> run_state \<Rightarrow> bool" where
  "isComplete article s =
     (let steps = getStepsForActivePath article s in currentStepIndex s \<ge> length steps)"

text \<open>
  \<^verbatim>\<open>getState\<close> copies the state with the completed set turned into an array, which
  lists the members in insertion order: the same record in this model.
\<close>

definition getState :: "run_state \<Rightarrow> run_state" where
  "getState s = s\<lparr> completedStepIds := completedStepIds s \<rparr>"

subsection \<open>Sequences of operations\<close>

datatype runner_op =
  OpReset
| OpStartArticle int "article option" string
| OpContinue "article option"
| OpBack
| OpRecordFailure string string "string option" string
| OpSwitchToFallback string "article option" "string list" string
| OpClearSkippedStepsCount

fun applyOp :: "runner_op \<Rightarrow> run_state \<Rightarrow> run_state" where
  "applyOp OpReset s = reset s"
| "applyOp (OpStartArticle articleId article now) s = snd (startArticle articleId article now s)"
| "applyOp (OpContinue article) s = snd (continue article s)"
| "applyOp OpBack s = snd (back_step s)"
| "applyOp (OpRecordFailure stepId reasonCategory note now) s =
     snd (recordFailure stepId reasonCategory note now s)"
| "applyOp (OpSwitchToFallback fallbackId article completedStepTexts now) s =
     snd (switchToFallback fallbackId article completedStepTexts now s)"
| "applyOp OpClearSkippedStepsCount s = clearSkippedStepsCount s"

definition runOps :: "runner_op list \<Rightarrow> run_state \<Rightarrow> run_state" where
  "runOps ops s = foldl (\<lambda>st op. applyOp op st) s ops"

text \<open>
  The state of a new runner: the constructor calls \<^verbatim>\<open>reset\<close>, which overwrites
  whatever was there (the record it is applied to here is a placeholder).
\<close>

definition newStepRunner :: run_state where
  "newStepRunner =
     reset \<lparr> selectedArticleId = None, activePath = [], currentStepIndex = 0,
             completedStepIds = [], attemptedPaths = [], failureHistory = [],
             skippedStepsCount = 0 \<rparr>"

definition continueN :: "nat \<Rightarrow> article option \<Rightarrow> run_state \<Rightarrow> run_state" where
  "continueN n article s = ((\<lambda>st. snd (continue article st)) ^^ n) s"

section \<open>The fallback selector (stepRunner.js)\<close>

text \<open>\<^verbatim>\<open>fb.trigger_keywords || []\<close> and \<^verbatim>\<open>failureNote || ''\<close>.\<close>

definition keywordsOrEmpty :: "fallback \<Rightarrow> string list" where
  "keywordsOrEmpty fb = (case trigger_keywords fb of None \<Rightarrow> [] | Some ks \<Rightarrow> ks)"

definition noteOrEmpty :: "string option \<Rightarrow> string" where
  "noteOrEmpty failureNote = (case failureNote of None \<Rightarrow> [] | Some n \<Rightarrow> n)"

text \<open>
  The loop of \<^verbatim>\<open>findFallbackInArticle\<close> over the matching fallbacks from the
  second on, with the best fallback so far and its score.
\<close>

fun bestFallbackLoop :: "fallback list \<Rightarrow> string list \<Rightarrow> fallback \<Rightarrow> nat \<Rightarrow> fallback" where
  "bestFallbackLoop [] queryTokens bestFallback bestScore = bestFallback"
| "bestFallbackLoop (fb # rest) queryTokens bestFallback bestScore =
     (let score = calculateKeywordOverlap (keywordsOrEmpty fb) queryTokens
      in if score > bestScore then bestFallbackLoop rest queryTokens fb score
         else bestFallbackLoop rest queryTokens bestFallback bestScore)"

definition findFallbackInArticle :: "article \<Rightarrow> string \<Rightarrow> string list \<Rightarrow> fallback option" where
  "findFallbackInArticle article reasonCategory queryTokens =
     (case art_fallbacks article of
        None \<Rightarrow> None
      | Some fbs \<Rightarrow>
          if length fbs = 0 then None
          else (let matchingFallbacks = filter (\<lambda>fb. reason_category fb = reasonCategory) fbs
                in case matchingFallbacks of
                     [] \<Rightarrow> None
                   | [m] \<Rightarrow> Some m
                   | m # rest \<Rightarrow>
                       Some (bestFallbackLoop rest queryTokens m
                               (calculateKeywordOverlap (keywordsOrEmpty m) queryTokens))))"

fun findFallbackAcrossArticles ::
  "article list \<Rightarrow> string \<Rightarrow> string list \<Rightarrow> int \<Rightarrow> (article \<times> fallback) option" where
  "findFallbackAcrossArticles [] reasonCategory queryTokens currentArticleId = None"
| "findFallbackAcrossArticles (article # rest) reasonCategory queryTokens currentArticleId =
     (if art_id article = currentArticleId
      then findFallbackAcrossArticles rest reasonCategory queryTokens currentArticleId
      else (case findFallbackInArticle article reasonCategory queryTokens of
              Some fallback \<Rightarrow> Some (article, fallback)
            | None \<Rightarrow> findFallbackAcrossArticles rest reasonCategory queryTokens currentArticleId))"

datatype fallback_selection =
  SameArticle fallback article
| CrossArticle fallback article
| Escalation "escalation option"

definition selectFallback ::
  "article \<Rightarrow> article list \<Rightarrow> string \<Rightarrow> string option \<Rightarrow> fallback_selection" where
  "selectFallback currentArticle allArticles reasonCategory failureNote =
     (let queryTokens = normalizeToTokens (noteOrEmpty failureNote)
      in case findFallbackInArticle currentArticle reasonCategory queryTokens of
           Some fallbackInArticle \<Rightarrow> SameArticle fallbackInArticle currentArticle
         | None \<Rightarrow>
             (case findFallbackAcrossArticles allArticles reasonCategory queryTokens
                     (art_id currentArticle) of
                Some (article, fallback) \<Rightarrow> CrossArticle fallback article
              | None \<Rightarrow> Escalation (art_escalation currentArticle)))"

definition fallbacksOrEmpty :: "article \<Rightarrow> fallback list" where
  "fallbacksOrEmpty a = (case art_fallbacks a of None \<Rightarrow> [] | Some fbs \<Rightarrow> fbs)"

text \<open>
  The reading of the specification's sentence on the score of a candidate fallback, for
  comparison with the source: the number of the fallback's trigger keywords whose
  lower-cased text is one of the tokens of the failure note. A fallback without trigger
  keywords, and any fallback when there is no note, scores 0.
\<close>

definition spec_keywordScore :: "string option \<Rightarrow> fallback \<Rightarrow> nat" where
  "spec_keywordScore failureNote fb =
     (case trigger_keywords fb of
        None \<Rightarrow> 0
      | Some keywords \<Rightarrow>
          (case failureNote of
             None \<Rightarrow> 0
           | Some note \<Rightarrow>
               length (filter (\<lambda>keyword. toLowerCase keyword \<in> set (normalizeToTokens note))
                         keywords)))"

text \<open>
  A step is skipped when its text is similar to the text of some completed step: the
  test in the loop body of \<^verbatim>\<open>findStepsToSkip\<close>.
\<close>

definition similarToCompleted :: "string list \<Rightarrow> step \<Rightarrow> bool" where
  "similarToCompleted completedStepTexts st =
     list_ex (\<lambda>completedText. areStepsSimilar (step_text st) completedText
                STEP_SIMILARITY_THRESHOLD) completedStepTexts"

section \<open>The retrieval scorer (retrieval.js, MockRetrievalProvider.search)\<close>

record match_info =
  tagMatches :: "string list"
  productMatch :: bool
  titleMatch :: bool
  keywordMatches :: "string list"

record retrieval_result =
  rr_article :: article
  rr_score :: nat
  rr_matchInfo :: match_info

text \<open>
  The four parts of the score, in the order of the source. A text field that is absent
  or empty is falsy and gives no match.
\<close>

definition tagMatchesOf :: "string list \<Rightarrow> article \<Rightarrow> string list" where
  "tagMatchesOf queryTokens article =
     (case art_tags article of
        None \<Rightarrow> []
      | Some tags \<Rightarrow>
          filter (\<lambda>tag. list_ex (\<lambda>token. includesStr (toLowerCase tag) token) queryTokens) tags)"

definition productMatchOf :: "string \<Rightarrow> article \<Rightarrow> bool" where
  "productMatchOf queryLower article =
     (case art_product article of
        None \<Rightarrow> False
      | Some product \<Rightarrow> product \<noteq> [] \<and> includesStr queryLower (toLowerCase product))"

definition titleMatchOf :: "string \<Rightarrow> article \<Rightarrow> bool" where
  "titleMatchOf queryLower article =
     (case art_title article of
        None \<Rightarrow> False
      | Some title \<Rightarrow> title \<noteq> [] \<and> includesStr (toLowerCase title) queryLower)"

definition keywordMatchesOf :: "string \<Rightarrow> article \<Rightarrow> string list" where
  "keywordMatchesOf queryLower article =
     (case art_keywords article of
        None \<Rightarrow> []
      | Some keywords \<Rightarrow>
          filter (\<lambda>keyword. includesStr queryLower (toLowerCase keyword)) keywords)"

definition tagScore :: "string \<Rightarrow> article \<Rightarrow> nat" where
  "tagScore query article =
     3 * length (tagMatchesOf (splitWhitespace [] (toLowerCase query)) article)"

definition scoreArticle :: "string \<Rightarrow> article \<Rightarrow> retrieval_result" where
  "scoreArticle query article =
     (let queryLower = toLowerCase query;
          queryTokens = splitWhitespace [] queryLower;
          tagMs = tagMatchesOf queryTokens article;
          productM = productMatchOf queryLower article;
          titleM = titleMatchOf queryLower article;
          keywordMs = keywordMatchesOf queryLower article;
          score = 3 * length tagMs + (if productM then 2 else 0) + (if titleM then 1 else 0)
                    + length keywordMs
      in \<lparr> rr_article = article, rr_score = score,
           rr_matchInfo = \<lparr> tagMatches = tagMs, productMatch = productM,
                             titleMatch = titleM, keywordMatches = keywordMs \<rparr> \<rparr>)"

text \<open>
  \<^verbatim>\<open>xs.slice(0, limit)\<close> for an integer limit: a negative limit counts from the end.
\<close>

definition slice0 :: "int \<Rightarrow> 'a list \<Rightarrow> 'a list" where
  "slice0 limit xs =
     (if limit < 0 then take (nat (int (length xs) + limit)) xs else take (nat limit) xs)"

text \<open>
  \<^verbatim>\<open>search(query, { limit })\<close>, with \<open>None\<close> for an absent limit, which is 3 by
  default. \<open>rankedResults\<close> is the chain before the slice: the scored articles,
  those with a score of 0 filtered out, sorted. The sort with the comparator
  \<^verbatim>\<open>b.score - a.score\<close> is stable: it is the stable insertion sort on the negated
  score.
\<close>

definition rankedResults :: "string \<Rightarrow> article list \<Rightarrow> retrieval_result list" where
  "rankedResults query articles =
     sort_key (\<lambda>r. - int (rr_score r))
       (filter (\<lambda>r. rr_score r > 0) (map (scoreArticle query) articles))"

definition limitOrDefault :: "int option \<Rightarrow> int" where
  "limitOrDefault limitOption = (case limitOption of None \<Rightarrow> 3 | Some l \<Rightarrow> l)"

definition search :: "string \<Rightarrow> int option \<Rightarrow> article list \<Rightarrow> retrieval_result list" where
  "search query limitOption articles =
     slice0 (limitOrDefault limitOption) (rankedResults query articles)"

definition tagsOrEmpty :: "article \<Rightarrow> string list" where
  "tagsOrEmpty a = (case art_tags a of None \<Rightarrow> [] | Some tags \<Rightarrow> tags)"

text \<open>
  The reading of the specification's sentence on tags, for comparison with the source:
  a tag shares a token with the query when a whitespace-separated token of the
  lower-cased tag is equal to a whitespace-separated token of the lower-cased query.
\<close>

definition spec_tagSharesToken :: "string \<Rightarrow> string \<Rightarrow> bool" where
  "spec_tagSharesToken query tag =
     list_ex (\<lambda>t. t \<in> set (splitWhitespace [] (toLowerCase query)))
       (splitWhitespace [] (toLowerCase tag))"

definition spec_tagScore :: "string \<Rightarrow> article \<Rightarrow> nat" where
  "spec_tagScore query article =
     3 * length (filter (spec_tagSharesToken query) (tagsOrEmpty article))"

text \<open>
  The reading of the specification's invariant on the active path, for comparison with
  the source: the path is "main", or the selected article identifier is that of an
  article of the corpus that has a fallback with the path as its identifier.
\<close>

definition spec_activePathResolves :: "article list \<Rightarrow> run_state \<Rightarrow> bool" where
  "spec_activePathResolves corpus s =
     (activePath s = ''main'' \<or>
      list_ex (\<lambda>a. selectedArticleId s = Some (art_id a) \<and>
                    activePath s \<in> set (map fb_id (fallbacksOrEmpty a))) corpus)"

section \<open>Example articles\<close>

definition exMainSteps :: "step list" where
  "exMainSteps =
     [\<lparr> step_id = ''step1'', step_text = ''Check internet connection'' \<rparr>,
      \<lparr> step_id = ''step2'', step_text = ''Verify SMTP settings'' \<rparr>]"

definition exFallbackSmtp :: fallback where
  "exFallbackSmtp =
     \<lparr> fb_id = ''fallback1'', reason_category = ''system-error'',
       trigger_keywords = Some [''smtp'', ''port''],
       fb_steps = Some [\<lparr> step_id = ''fb1-step1'', step_text = ''Check internet connection'' \<rparr>,
                        \<lparr> step_id = ''fb1-step2'', step_text = ''Verify SMTP settings.'' \<rparr>] \<rparr>"

definition exFallbackQuota :: fallback where
  "exFallbackQuota =
     \<lparr> fb_id = ''fallback2'', reason_category = ''system-error'',
       trigger_keywords = Some [''Quota'', ''space''],
       fb_steps = Some [\<lparr> step_id = ''fb2-step1'', step_text = ''Check mailbox quota'' \<rparr>,
                        \<lparr> step_id = ''fb2-step2'', step_text = ''Check internet connection'' \<rparr>] \<rparr>"

definition exEmailArticle :: article where
  "exEmailArticle =
     \<lparr> art_id = 1, art_title = Some ''Email Not Sending'', art_tags = Some [''email''],
       art_product = Some ''Gmail'', art_keywords = Some [''smtp''],
       art_steps = Some exMainSteps,
       art_fallbacks = Some [exFallbackSmtp, exFallbackQuota],
       art_escalation = Some \<lparr> esc_when = ''After all steps fail'',
                                esc_target = ''Email support team'' \<rparr> \<rparr>"

definition exFallbackDriver :: fallback where
  "exFallbackDriver =
     \<lparr> fb_id = ''driver-fallback'', reason_category = ''no-change'',
       trigger_keywords = None,
       fb_steps = Some [\<lparr> step_id = ''drv-step1'', step_text = ''Reinstall the printer driver'' \<rparr>] \<rparr>"

definition exPrinterArticle :: article where
  "exPrinterArticle =
     \<lparr> art_id = 2, art_title = Some ''Printer Offline'', art_tags = Some [''printer''],
       art_product = Some ''Windows'', art_keywords = Some [''offline''],
       art_steps = Some [\<lparr> step_id = ''step1'', step_text = ''Restart the printer'' \<rparr>],
       art_fallbacks = Some [exFallbackDriver],
       art_escalation = None \<rparr>"

text \<open>An article that carries one tag and nothing else.\<close>

definition exTagged :: "int \<Rightarrow> article" where
  "exTagged n =
     \<lparr> art_id = n, art_title = None, art_tags = Some [''network''], art_product = None,
       art_keywords = None, art_steps = None, art_fallbacks = None, art_escalation = None \<rparr>"

text \<open>An article that carries two tags and a title.\<close>

definition exTwoTags :: article where
  "exTwoTags =
     \<lparr> art_id = 5, art_title = Some ''Network down'', art_tags = Some [''network'', ''wifi''],
       art_product = None, art_keywords = None, art_steps = None, art_fallbacks = None,
       art_escalation = None \<rparr>"

definition exState :: "nat \<Rightarrow> run_state" where
  "exState i =
     \<lparr> selectedArticleId = Some 1, activePath = ''main'', currentStepIndex = i,
       completedStepIds = [''step1''], attemptedPaths = [], failureHistory = [],
       skippedStepsCount = 0 \<rparr>"

section \<open>Navigation\<close>

text \<open>
  Claim C8. \<^verbatim>\<open>back()\<close> decrements the step index by one and reports success when
  the index is above 0; otherwise it reports failure and leaves the whole state as it
  was. In both cases the completed step identifiers stay as they were (and so does
  every other field but the index).
\<close>

theorem back_step_effect:
  "(currentStepIndex s > 0 \<longrightarrow>
      back_success (fst (back_step s)) \<and>
      fst (back_step s) = BackOk (currentStepIndex s - 1) \<and>
      snd (back_step s) = s\<lparr> currentStepIndex := currentStepIndex s - 1 \<rparr>) \<and>
   (\<not> currentStepIndex s > 0 \<longrightarrow>
      \<not> back_success (fst (back_step s)) \<and> snd (back_step s) = s) \<and>
   completedStepIds (snd (back_step s)) = completedStepIds s"
  by (simp add: back_step_def back_success_def Let_def)

theorem back_step_effect_witness:
  "currentStepIndex (exState 2) > 0 \<and>
   back_success (fst (back_step (exState 2))) \<and>
   fst (back_step (exState 2)) = BackOk (currentStepIndex (exState 2) - 1) \<and>
   \<not> currentStepIndex (exState 0) > 0 \<and>
   \<not> back_success (fst (back_step (exState 0))) \<and>
   snd (back_step (exState 0)) = exState 0 \<and>
   completedStepIds (snd (back_step (exState 2))) = completedStepIds (exState 2)"
proof -
  have p: "currentStepIndex (exState 2) > 0"
    by (simp add: exState_def)
  have q: "\<not> currentStepIndex (exState 0) > 0"
    by (simp add: exState_def)
  show ?thesis
    using p q back_step_effect [of "exState 2"] back_step_effect [of "exState 0"]
    by blast
qed

text \<open>
  Claim C9. After any sequence of operations, from any state, \<^verbatim>\<open>reset()\<close> brings
  \<^verbatim>\<open>getState()\<close> to the initial shape: no selected article, path "main", index 0,
  no completed step, no attempted path, no failure, skip count 0; this is the state of
  a new runner.
\<close>

theorem reset_round_trip:
  "getState (reset (runOps ops s)) =
     \<lparr> selectedArticleId = None, activePath = ''main'', currentStepIndex = 0,
       completedStepIds = [], attemptedPaths = [], failureHistory = [],
       skippedStepsCount = 0 \<rparr> \<and>
   getState (reset (runOps ops s)) = getState newStepRunner"
  by (simp add: getState_def reset_def newStepRunner_def)

lemma nth_not_in_take:
  assumes "distinct (map f xs)" and "k < length xs"
  shows "f (xs ! k) \<notin> f ` set (take k xs)"
proof -
  have "distinct (map f (take (Suc k) xs))"
    using assms(1) by (simp add: distinct_take flip: take_map)
  then show ?thesis
    using assms(2) by (simp add: take_Suc_conv_app_nth)
qed

lemma startArticle_state:
  "snd (startArticle articleId article now s) =
     \<lparr> selectedArticleId = Some articleId, activePath = ''main'', currentStepIndex = 0,
       completedStepIds = [], attemptedPaths = [\<lparr> ap_path = ''main'', ap_startedAt = now \<rparr>],
       failureHistory = [], skippedStepsCount = 0 \<rparr>"
  by (simp add: startArticle_def reset_def Let_def)

lemma continueN_main:
  assumes "art_steps a = Some sts" and "distinct (map step_id sts)" and "k \<le> length sts"
  shows "continueN k (Some a) (snd (startArticle articleId (Some a) now s)) =
           (snd (startArticle articleId (Some a) now s))
             \<lparr> completedStepIds := map step_id (take k sts), currentStepIndex := k \<rparr>"
  using assms(3)
proof (induction k)
  case 0
  show ?case by (simp add: continueN_def startArticle_state)
next
  case (Suc k)
  then have k: "k < length sts" by simp
  have notin: "step_id (sts ! k) \<notin> step_id ` set (take k sts)"
    using nth_not_in_take [OF assms(2) k] .
  have "continueN (Suc k) (Some a) (snd (startArticle articleId (Some a) now s)) =
        snd (continue (Some a) (continueN k (Some a) (snd (startArticle articleId (Some a) now s))))"
    by (simp add: continueN_def)
  also have "\<dots> = snd (continue (Some a) ((snd (startArticle articleId (Some a) now s))
             \<lparr> completedStepIds := map step_id (take k sts), currentStepIndex := k \<rparr>))"
    using Suc by simp
  also have "\<dots> = (snd (startArticle articleId (Some a) now s))
             \<lparr> completedStepIds := map step_id (take (Suc k) sts), currentStepIndex := Suc k \<rparr>"
    using k notin assms(1)
    by (simp add: continue_def getCurrentStep_def getStepsForActivePath_def startArticle_state
          setAdd_def Let_def take_Suc_conv_app_nth)
  finally show ?case .
qed

text \<open>
  Claim C5. For an article whose main path has the steps \<open>sts\<close>, with pairwise
  distinct identifiers: after \<^verbatim>\<open>startArticle\<close> and as many calls of
  \<^verbatim>\<open>continue\<close> as there are steps, the completed identifiers are those of the
  steps, in the order of the steps, and \<^verbatim>\<open>isComplete\<close> holds; one more
  \<^verbatim>\<open>continue\<close> returns \<^verbatim>\<open>{ completed: true }\<close> and leaves the state (so the
  completed identifiers and the index) as it was.
\<close>

theorem continue_all_steps:
  assumes "art_steps a = Some sts" and "distinct (map step_id sts)"
  shows "completedStepIds (getState (continueN (length sts) (Some a)
             (snd (startArticle articleId (Some a) now s)))) = map step_id sts \<and>
         isComplete (Some a) (continueN (length sts) (Some a)
             (snd (startArticle articleId (Some a) now s))) \<and>
         continue (Some a) (continueN (length sts) (Some a)
             (snd (startArticle articleId (Some a) now s))) =
           (AlreadyCompleted, continueN (length sts) (Some a)
             (snd (startArticle articleId (Some a) now s)))"
proof -
  define sN where
    "sN = continueN (length sts) (Some a) (snd (startArticle articleId (Some a) now s))"
  have sN: "sN = (snd (startArticle articleId (Some a) now s))
             \<lparr> completedStepIds := map step_id sts, currentStepIndex := length sts \<rparr>"
    unfolding sN_def using continueN_main [OF assms le_refl] by simp
  have steps: "getStepsForActivePath (Some a) sN = sts"
    using assms(1) by (simp add: sN getStepsForActivePath_def startArticle_state)
  have "completedStepIds (getState sN) = map step_id sts"
    by (simp add: sN getState_def)
  moreover have "isComplete (Some a) sN"
    by (simp add: isComplete_def steps) (simp add: sN)
  moreover have "continue (Some a) sN = (AlreadyCompleted, sN)"
    by (simp add: continue_def getCurrentStep_def steps) (simp add: sN)
  ultimately show ?thesis
    unfolding sN_def by blast
qed

theorem continue_all_steps_witness:
  "art_steps exEmailArticle = Some exMainSteps \<and>
   distinct (map step_id exMainSteps) \<and>
   length exMainSteps = 2 \<and>
   completedStepIds (getState (continueN 2 (Some exEmailArticle)
       (snd (startArticle 1 (Some exEmailArticle) ''2024-01-01T00:00:00.000Z'' newStepRunner))))
     = [''step1'', ''step2''] \<and>
   isComplete (Some exEmailArticle) (continueN 2 (Some exEmailArticle)
       (snd (startArticle 1 (Some exEmailArticle) ''2024-01-01T00:00:00.000Z'' newStepRunner)))"
proof -
  have a: "art_steps exEmailArticle = Some exMainSteps"
    by (simp add: exEmailArticle_def)
  have d: "distinct (map step_id exMainSteps)"
    by (simp add: exMainSteps_def)
  have l: "length exMainSteps = 2"
    by (simp add: exMainSteps_def)
  have m: "map step_id exMainSteps = [''step1'', ''step2'']"
    by (simp add: exMainSteps_def)
  show ?thesis
    using continue_all_steps [OF a d, of 1 "''2024-01-01T00:00:00.000Z''" newStepRunner] a d
    by (simp add: l m)
qed

section \<open>Similarity\<close>

lemma setAdd_set: "set (setAdd x xs) = insert x (set xs)"
  by (auto simp: setAdd_def)


lemma foldl_setAdd_set: "set (foldl (\<lambda>s x. setAdd x s) acc xs) = set acc \<union> set xs"
  by (induction xs arbitrary: acc) (auto simp: setAdd_set)


lemma newSet_set: "set (newSet xs) = set xs"
  by (simp add: newSet_def foldl_setAdd_set)









section \<open>Fallback selection\<close>

lemma findFallbackInArticle_none:
  assumes "\<forall>fb \<in> set (fallbacksOrEmpty a). reason_category fb \<noteq> cat"
  shows "findFallbackInArticle a cat q = None"
proof (cases "art_fallbacks a")
  case None
  then show ?thesis by (simp add: findFallbackInArticle_def)
next
  case (Some fbs)
  with assms have "filter (\<lambda>fb. reason_category fb = cat) fbs = []"
    by (simp add: fallbacksOrEmpty_def filter_empty_conv)
  with Some show ?thesis by (simp add: findFallbackInArticle_def)
qed

lemma findFallbackAcrossArticles_none:
  assumes "\<forall>a \<in> set corpus. art_id a \<noteq> cid \<longrightarrow> findFallbackInArticle a cat q = None"
  shows "findFallbackAcrossArticles corpus cat q cid = None"
  using assms by (induction corpus) auto

text \<open>
  Claim C3. If no fallback of the current article has the given reason category, and
  no fallback of any other article of the corpus has it either, \<^verbatim>\<open>selectFallback\<close>
  returns the escalation result carrying the current article's own escalation record.
\<close>

theorem selectFallback_escalation:
  assumes "\<forall>fb \<in> set (fallbacksOrEmpty cur). reason_category fb \<noteq> cat"
    and "\<forall>a \<in> set corpus. a \<noteq> cur \<longrightarrow> (\<forall>fb \<in> set (fallbacksOrEmpty a). reason_category fb \<noteq> cat)"
  shows "selectFallback cur corpus cat note = Escalation (art_escalation cur)"
proof -
  have cur: "findFallbackInArticle cur cat q = None" for q
    using assms(1) by (rule findFallbackInArticle_none)
  have "findFallbackInArticle a cat q = None" if "a \<in> set corpus" for a q
  proof (cases "a = cur")
    case True
    then show ?thesis by (simp add: cur)
  next
    case False
    with assms(2) that show ?thesis by (intro findFallbackInArticle_none) blast
  qed
  then have "findFallbackAcrossArticles corpus cat q (art_id cur) = None" for q
    by (intro findFallbackAcrossArticles_none) blast
  then show ?thesis
    by (simp add: selectFallback_def cur)
qed

theorem selectFallback_escalation_witness:
  "list_all (\<lambda>fb. reason_category fb \<noteq> ''permission-issue'')
     (fallbacksOrEmpty exEmailArticle @ fallbacksOrEmpty exPrinterArticle) \<and>
   selectFallback exEmailArticle [exEmailArticle, exPrinterArticle] ''permission-issue''
       (Some ''access denied'') =
     Escalation (Some \<lparr> esc_when = ''After all steps fail'', esc_target = ''Email support team'' \<rparr>)"
proof -
  have h1: "\<forall>fb \<in> set (fallbacksOrEmpty exEmailArticle). reason_category fb \<noteq> ''permission-issue''"
    by (simp add: fallbacksOrEmpty_def exEmailArticle_def exFallbackSmtp_def exFallbackQuota_def)
  have h2: "\<forall>a \<in> set [exEmailArticle, exPrinterArticle]. a \<noteq> exEmailArticle \<longrightarrow>
      (\<forall>fb \<in> set (fallbacksOrEmpty a). reason_category fb \<noteq> ''permission-issue'')"
    by (simp add: fallbacksOrEmpty_def exPrinterArticle_def exFallbackDriver_def)
  have e: "art_escalation exEmailArticle =
      Some \<lparr> esc_when = ''After all steps fail'', esc_target = ''Email support team'' \<rparr>"
    by (simp add: exEmailArticle_def)
  have l: "list_all (\<lambda>fb. reason_category fb \<noteq> ''permission-issue'')
     (fallbacksOrEmpty exEmailArticle @ fallbacksOrEmpty exPrinterArticle)"
    by (simp add: fallbacksOrEmpty_def exEmailArticle_def exFallbackSmtp_def exFallbackQuota_def
        exPrinterArticle_def exFallbackDriver_def)
  show ?thesis
    using selectFallback_escalation [OF h1 h2, of "Some ''access denied''"] l
    by (simp only: e)
qed

lemma calculateKeywordOverlap_count:
  "calculateKeywordOverlap kws toks = length (filter (\<lambda>k. toLowerCase k \<in> set toks) kws)"
  by (simp add: calculateKeywordOverlap_def newSet_set)



lemma overlap_spec_keywordScore:
  "calculateKeywordOverlap (keywordsOrEmpty fb) (normalizeToTokens (noteOrEmpty failureNote)) =
     spec_keywordScore failureNote fb"
proof (cases "trigger_keywords fb")
  case None
  then show ?thesis
    by (simp add: spec_keywordScore_def keywordsOrEmpty_def calculateKeywordOverlap_def)
next
  case (Some kws)
  show ?thesis
  proof (cases failureNote)
    case None
    with Some show ?thesis
      by (simp add: spec_keywordScore_def noteOrEmpty_def normalizeToTokens_def
          calculateKeywordOverlap_def)
  next
    case (Some n)
    with \<open>trigger_keywords fb = Some kws\<close> show ?thesis
      by (simp add: spec_keywordScore_def noteOrEmpty_def keywordsOrEmpty_def
          calculateKeywordOverlap_count)
  qed
qed


lemma exMatching:
  "filter (\<lambda>fb. reason_category fb = ''system-error'') [exFallbackSmtp, exFallbackQuota] =
     [exFallbackSmtp, exFallbackQuota]"
  by (simp add: exFallbackSmtp_def exFallbackQuota_def)

lemma tokens_smtp_port_wrong:
  "normalizeToTokens ''smtp port wrong'' = [''smtp'', ''port'', ''wrong'']"
  by code_simp



lemma exKeywords_lower:
  "toLowerCase ''smtp'' = ''smtp''" "toLowerCase ''port'' = ''port''"
  "toLowerCase ''Quota'' = ''quota''" "toLowerCase ''space'' = ''space''"
  by code_simp+

lemma exKeywords:
  "trigger_keywords exFallbackSmtp = Some [''smtp'', ''port'']"
  "trigger_keywords exFallbackQuota = Some [''Quota'', ''space'']"
  by (simp_all add: exFallbackSmtp_def exFallbackQuota_def)




text \<open>
  The tie-break scenario of the specification: the note "smtp port wrong" selects the
  first fallback, with an overlap of 2 against 0.
\<close>

lemma selectFallback_smtp_scenario:
  "spec_keywordScore (Some ''smtp port wrong'') exFallbackSmtp = 2 \<and>
   spec_keywordScore (Some ''smtp port wrong'') exFallbackQuota = 0 \<and>
   selectFallback exEmailArticle [exPrinterArticle] ''system-error'' (Some ''smtp port wrong'') =
     SameArticle exFallbackSmtp exEmailArticle"
proof -
  have s: "spec_keywordScore (Some ''smtp port wrong'') exFallbackSmtp = 2"
      "spec_keywordScore (Some ''smtp port wrong'') exFallbackQuota = 0"
    by (simp_all add: spec_keywordScore_def exKeywords tokens_smtp_port_wrong exKeywords_lower)
  have a: "art_fallbacks exEmailArticle = Some [exFallbackSmtp, exFallbackQuota]"
    by (simp add: exEmailArticle_def)
  have "selectFallback exEmailArticle [exPrinterArticle] ''system-error'' (Some ''smtp port wrong'') =
     SameArticle exFallbackSmtp exEmailArticle"
    using s
    by (simp add: selectFallback_def findFallbackInArticle_def a exMatching
        overlap_spec_keywordScore del: filter.simps)
  with s show ?thesis by simp
qed

section \<open>Switching to a fallback\<close>

lemma findStartIndex_takeWhile:
  "findStartIndex skip n i =
     (if \<forall>j \<in> set [i ..< n]. j \<in> set skip then 0
      else i + length (takeWhile (\<lambda>j. j \<in> set skip) [i ..< n]))"
proof (induction skip n i rule: findStartIndex.induct)
  case (1 skip n i)
  show ?case
  proof (cases "i < n")
    case False
    then show ?thesis by (simp add: findStartIndex.simps [of skip n i])
  next
    case True
    then have upt: "[i ..< n] = i # [Suc i ..< n]"
      by (simp add: upt_conv_Cons)
    show ?thesis
    proof (cases "i \<in> set skip")
      case False
      with True show ?thesis
        by (simp add: findStartIndex.simps [of skip n i] upt)
    next
      case inskip: True
      with True "1.IH" have "findStartIndex skip n (i + 1) =
          (if \<forall>j \<in> set [i + 1 ..< n]. j \<in> set skip then 0
           else i + 1 + length (takeWhile (\<lambda>j. j \<in> set skip) [i + 1 ..< n]))"
        by simp
      with True inskip show ?thesis
        by (simp add: findStartIndex.simps [of skip n i] upt)
    qed
  qed
qed

lemma findStepsToSkip_mem:
  "j < length sts \<Longrightarrow> j \<in> set (findStepsToSkip sts texts) \<longleftrightarrow> similarToCompleted texts (sts ! j)"
  by (simp add: findStepsToSkip_def similarToCompleted_def)

lemma takeWhile_indices:
  "length (takeWhile (\<lambda>j. j \<in> set (findStepsToSkip sts texts)) [0 ..< length sts]) =
   length (takeWhile (similarToCompleted texts) sts)"
proof -
  have "takeWhile (\<lambda>j. j \<in> set (findStepsToSkip sts texts)) [0 ..< length sts] =
        takeWhile (similarToCompleted texts \<circ> (\<lambda>j. sts ! j)) [0 ..< length sts]"
    by (rule takeWhile_cong) (simp_all add: findStepsToSkip_mem)
  then have "length (takeWhile (\<lambda>j. j \<in> set (findStepsToSkip sts texts)) [0 ..< length sts]) =
        length (map (\<lambda>j. sts ! j) (takeWhile (similarToCompleted texts \<circ> (\<lambda>j. sts ! j)) [0 ..< length sts]))"
    by simp
  also have "\<dots> = length (takeWhile (similarToCompleted texts) (map (\<lambda>j. sts ! j) [0 ..< length sts]))"
    by (simp only: takeWhile_map)
  also have "\<dots> = length (takeWhile (similarToCompleted texts) sts)"
    by (simp add: map_nth)
  finally show ?thesis .
qed

lemma all_indices:
  "(\<forall>j \<in> set [0 ..< length sts]. j \<in> set (findStepsToSkip sts texts)) \<longleftrightarrow>
   list_all (similarToCompleted texts) sts"
  by (auto simp: findStepsToSkip_mem list_all_length)

text \<open>
  What \<^verbatim>\<open>switchToFallback\<close> computes, for every input: the index and the skip
  count are the number of leading steps of the fallback that are similar to a completed
  step, unless every step of the fallback is, and then both are 0.
\<close>

lemma switchToFallback_start:
  "currentStepIndex (snd (switchToFallback fid article texts now s)) =
     (if list_all (similarToCompleted texts) (getStepsForActivePath article (s\<lparr>activePath := fid\<rparr>))
      then 0
      else length (takeWhile (similarToCompleted texts)
                     (getStepsForActivePath article (s\<lparr>activePath := fid\<rparr>)))) \<and>
   skippedStepsCount (snd (switchToFallback fid article texts now s)) =
     currentStepIndex (snd (switchToFallback fid article texts now s)) \<and>
   sr_skippedSteps (fst (switchToFallback fid article texts now s)) =
     currentStepIndex (snd (switchToFallback fid article texts now s))"
proof -
  have g: "getStepsForActivePath article
        (s\<lparr>activePath := fid, attemptedPaths := ap\<rparr>) =
      getStepsForActivePath article (s\<lparr>activePath := fid\<rparr>)" for ap
    by (simp add: getStepsForActivePath_def split: option.splits)
  show ?thesis
    by (simp add: switchToFallback_def Let_def g findStartIndex_takeWhile takeWhile_indices
        all_indices del: set_upt)
qed

lemma tokens1: "normalizeToTokens ''Verify SMTP settings.'' = [''verify'', ''smtp'', ''settings'']"
  by code_simp

lemma tokens2: "normalizeToTokens ''Verify SMTP settings'' = [''verify'', ''smtp'', ''settings'']"
  by code_simp

lemma sim1: "areStepsSimilar ''Verify SMTP settings.'' ''Verify SMTP settings'' STEP_SIMILARITY_THRESHOLD"
  by (simp add: areStepsSimilar_def tokens1 tokens2 calculateJaccardSimilarity_def newSet_def
      setAdd_def STEP_SIMILARITY_THRESHOLD_def)

lemma exSkipAll:
  "findStepsToSkip
     [\<lparr> step_id = ''fb1-step1'', step_text = ''Check internet connection'' \<rparr>,
      \<lparr> step_id = ''fb1-step2'', step_text = ''Verify SMTP settings.'' \<rparr>]
     [''Check internet connection'', ''Verify SMTP settings''] = [0, 1]"
proof -
  have "[0 ..< 2] = [0, Suc 0]"
    by (simp add: upt_rec)
  moreover have "areStepsSimilar ''Check internet connection'' ''Check internet connection''
      STEP_SIMILARITY_THRESHOLD"
    by (simp add: areStepsSimilar_def)
  ultimately show ?thesis
    using sim1 by (simp add: findStepsToSkip_def)
qed

text \<open>
  Claim C1, at an input where every step of the fallback is in the skip set: the two
  steps of the fallback are similar to the two completed steps, the skip set is
  \<open>{0, 1}\<close>, and \<^verbatim>\<open>switchToFallback\<close> leaves the index and the skip count at 0,
  not at the length 2 of the fallback's step list; the path is not complete.
\<close>

theorem switchToFallback_all_skipped:
  "getStepsForActivePath (Some exEmailArticle) ((exState 2)\<lparr>activePath := ''fallback1''\<rparr>) =
     [\<lparr> step_id = ''fb1-step1'', step_text = ''Check internet connection'' \<rparr>,
      \<lparr> step_id = ''fb1-step2'', step_text = ''Verify SMTP settings.'' \<rparr>] \<and>
   findStepsToSkip
     [\<lparr> step_id = ''fb1-step1'', step_text = ''Check internet connection'' \<rparr>,
      \<lparr> step_id = ''fb1-step2'', step_text = ''Verify SMTP settings.'' \<rparr>]
     [''Check internet connection'', ''Verify SMTP settings''] = [0, 1] \<and>
   currentStepIndex (snd (switchToFallback ''fallback1'' (Some exEmailArticle)
       [''Check internet connection'', ''Verify SMTP settings'']
       ''2024-01-01T00:00:00.000Z'' (exState 2))) = 0 \<and>
   skippedStepsCount (snd (switchToFallback ''fallback1'' (Some exEmailArticle)
       [''Check internet connection'', ''Verify SMTP settings'']
       ''2024-01-01T00:00:00.000Z'' (exState 2))) = 0 \<and>
   \<not> isComplete (Some exEmailArticle) (snd (switchToFallback ''fallback1'' (Some exEmailArticle)
       [''Check internet connection'', ''Verify SMTP settings'']
       ''2024-01-01T00:00:00.000Z'' (exState 2)))"
proof -
  have steps: "getStepsForActivePath (Some exEmailArticle) (s\<lparr>activePath := ''fallback1''\<rparr>) =
     [\<lparr> step_id = ''fb1-step1'', step_text = ''Check internet connection'' \<rparr>,
      \<lparr> step_id = ''fb1-step2'', step_text = ''Verify SMTP settings.'' \<rparr>]" for s :: run_state
    by (simp add: getStepsForActivePath_def exEmailArticle_def exFallbackSmtp_def)
  have steps': "getStepsForActivePath (Some exEmailArticle)
       (s\<lparr>activePath := ''fallback1'', attemptedPaths := ap, currentStepIndex := i,
           skippedStepsCount := k\<rparr>) =
     [\<lparr> step_id = ''fb1-step1'', step_text = ''Check internet connection'' \<rparr>,
      \<lparr> step_id = ''fb1-step2'', step_text = ''Verify SMTP settings.'' \<rparr>]" for s :: run_state and ap i k
    by (simp add: getStepsForActivePath_def exEmailArticle_def exFallbackSmtp_def)
  have steps'': "getStepsForActivePath (Some exEmailArticle)
       (s\<lparr>activePath := ''fallback1'', attemptedPaths := ap\<rparr>) =
     [\<lparr> step_id = ''fb1-step1'', step_text = ''Check internet connection'' \<rparr>,
      \<lparr> step_id = ''fb1-step2'', step_text = ''Verify SMTP settings.'' \<rparr>]" for s :: run_state and ap
    by (simp add: getStepsForActivePath_def exEmailArticle_def exFallbackSmtp_def)
  have start: "findStartIndex [0, Suc 0] (Suc (Suc 0)) 0 = 0"
    by code_simp
  show ?thesis
    by (simp add: steps switchToFallback_def Let_def steps' steps'' exSkipAll start isComplete_def)
qed

section \<open>The active path\<close>

lemma switchToFallback_activePath:
  "activePath (snd (switchToFallback fallbackId article texts now s)) = fallbackId"
  by (simp add: switchToFallback_def Let_def)

lemma switchToFallback_selectedArticleId:
  "selectedArticleId (snd (switchToFallback fallbackId article texts now s)) = selectedArticleId s"
  by (simp add: switchToFallback_def Let_def)

lemma continue_activePath: "activePath (snd (continue article s)) = activePath s"
  by (simp add: continue_def Let_def split: option.splits)

lemma applyOp_activePath:
  "activePath (applyOp op s) =
     (case op of
        OpReset \<Rightarrow> ''main''
      | OpStartArticle articleId article now \<Rightarrow> ''main''
      | OpSwitchToFallback fallbackId article texts now \<Rightarrow> fallbackId
      | _ \<Rightarrow> activePath s)"
  by (cases op)
    (simp_all add: reset_def startArticle_state switchToFallback_activePath continue_activePath
      back_step_def recordFailure_def clearSkippedStepsCount_def Let_def)

lemma runOps_snoc: "runOps (ops @ [op]) s = applyOp op (runOps ops s)"
  by (simp add: runOps_def)

lemma runOps_activePath:
  "activePath (runOps ops newStepRunner) = ''main'' \<or>
   (\<exists>fid art txts now. OpSwitchToFallback fid art txts now \<in> set ops \<and>
      activePath (runOps ops newStepRunner) = fid)"
proof (induction ops rule: rev_induct)
  case Nil
  show ?case by (simp add: runOps_def newStepRunner_def reset_def)
next
  case (snoc op ops)
  have key: "activePath (runOps (ops @ [op]) newStepRunner) =
     (case op of
        OpReset \<Rightarrow> ''main''
      | OpStartArticle articleId article now \<Rightarrow> ''main''
      | OpSwitchToFallback fallbackId article texts now \<Rightarrow> fallbackId
      | _ \<Rightarrow> activePath (runOps ops newStepRunner))"
    by (simp only: runOps_snoc applyOp_activePath)
  show ?case
  proof (cases op)
    case (OpSwitchToFallback fid art txts now)
    with key have "OpSwitchToFallback fid art txts now \<in> set (ops @ [op])"
      and "activePath (runOps (ops @ [op]) newStepRunner) = fid"
      by simp_all
    then show ?thesis by blast
  next
    case OpReset
    with key show ?thesis by simp
  next
    case (OpStartArticle x1 x2 x3)
    with key show ?thesis by simp
  next
    case (OpContinue x)
    with key have "activePath (runOps (ops @ [op]) newStepRunner) =
        activePath (runOps ops newStepRunner)"
      by simp
    with snoc show ?thesis by auto
  next
    case OpBack
    with key have "activePath (runOps (ops @ [op]) newStepRunner) =
        activePath (runOps ops newStepRunner)"
      by simp
    with snoc show ?thesis by auto
  next
    case (OpRecordFailure x1 x2 x3 x4)
    with key have "activePath (runOps (ops @ [op]) newStepRunner) =
        activePath (runOps ops newStepRunner)"
      by simp
    with snoc show ?thesis by auto
  next
    case OpClearSkippedStepsCount
    with key have "activePath (runOps (ops @ [op]) newStepRunner) =
        activePath (runOps ops newStepRunner)"
      by simp
    with snoc show ?thesis by auto
  qed
qed

text \<open>
  Claim C4, as amended. After every sequence of operations on a new runner the active
  path is "main" or the fallback identifier given to a \<^verbatim>\<open>switchToFallback\<close> of
  the sequence: \<^verbatim>\<open>reset\<close> and \<^verbatim>\<open>startArticle\<close> set the path to "main",
  \<^verbatim>\<open>switchToFallback\<close> sets it to the identifier it is given, whatever article it
  is given, and every other operation leaves it as it was.
\<close>

theorem activePath_after_ops:
  "(activePath (runOps ops newStepRunner) = ''main'' \<or>
    (\<exists>fid art txts now. OpSwitchToFallback fid art txts now \<in> set ops \<and>
       activePath (runOps ops newStepRunner) = fid)) \<and>
   activePath (applyOp op s) =
     (case op of
        OpReset \<Rightarrow> ''main''
      | OpStartArticle articleId article now \<Rightarrow> ''main''
      | OpSwitchToFallback fallbackId article texts now \<Rightarrow> fallbackId
      | _ \<Rightarrow> activePath s)"
  using runOps_activePath [of ops] applyOp_activePath [of op s] by blast

theorem activePath_after_ops_witness:
  "activePath (runOps [OpStartArticle 1 (Some exEmailArticle) ''t0'',
       OpContinue (Some exEmailArticle),
       OpSwitchToFallback ''fallback1'' (Some exEmailArticle) [''Check internet connection''] ''t1'']
       newStepRunner) = ''fallback1'' \<and>
   ''fallback1'' \<in> set (map fb_id (fallbacksOrEmpty exEmailArticle))"
proof -
  have "runOps [OpStartArticle 1 (Some exEmailArticle) ''t0'',
       OpContinue (Some exEmailArticle),
       OpSwitchToFallback ''fallback1'' (Some exEmailArticle) [''Check internet connection''] ''t1'']
       newStepRunner =
     applyOp (OpSwitchToFallback ''fallback1'' (Some exEmailArticle) [''Check internet connection''] ''t1'')
       (runOps [OpStartArticle 1 (Some exEmailArticle) ''t0'', OpContinue (Some exEmailArticle)]
          newStepRunner)"
    by (simp add: runOps_def)
  moreover have "''fallback1'' \<in> set (map fb_id (fallbacksOrEmpty exEmailArticle))"
    by (simp add: fallbacksOrEmpty_def exEmailArticle_def exFallbackSmtp_def)
  ultimately show ?thesis
    using activePath_after_ops [of "[]"
        "OpSwitchToFallback ''fallback1'' (Some exEmailArticle) [''Check internet connection''] ''t1''"
        "runOps [OpStartArticle 1 (Some exEmailArticle) ''t0'', OpContinue (Some exEmailArticle)]
          newStepRunner"]
    by simp
qed

lemma exEmail_fallback_ids:
  "fb_id ` set (fallbacksOrEmpty exEmailArticle) = {''fallback1'', ''fallback2''}"
  by (simp add: fallbacksOrEmpty_def exEmailArticle_def exFallbackSmtp_def exFallbackQuota_def)

lemma exPrinter_fallback_ids:
  "fb_id ` set (fallbacksOrEmpty exPrinterArticle) = {''driver-fallback''}"
  by (simp add: fallbacksOrEmpty_def exPrinterArticle_def exFallbackDriver_def)

lemma ex_article_ids: "art_id exEmailArticle = 1" "art_id exPrinterArticle = 2"
  by (simp_all add: exEmailArticle_def exPrinterArticle_def)

text \<open>
  Claim C4 as stated fails. After \<^verbatim>\<open>startArticle\<close> on article 1 and a switch to
  the fallback of article 2 (the cross-article case), the selected article identifier
  is still 1 and the active path is neither "main" nor a fallback of article 1; and
  after a switch to an identifier that no article has, the path names no fallback.
\<close>

theorem activePath_not_on_selected_article:
  "selectedArticleId (runOps [OpStartArticle 1 (Some exEmailArticle) ''t0'',
       OpSwitchToFallback ''driver-fallback'' (Some exPrinterArticle) [] ''t1''] newStepRunner) = Some 1 \<and>
   art_id exPrinterArticle = 2 \<and>
   activePath (runOps [OpStartArticle 1 (Some exEmailArticle) ''t0'',
       OpSwitchToFallback ''driver-fallback'' (Some exPrinterArticle) [] ''t1''] newStepRunner) =
     ''driver-fallback'' \<and>
   \<not> spec_activePathResolves [exEmailArticle, exPrinterArticle]
       (runOps [OpStartArticle 1 (Some exEmailArticle) ''t0'',
          OpSwitchToFallback ''driver-fallback'' (Some exPrinterArticle) [] ''t1''] newStepRunner) \<and>
   \<not> spec_activePathResolves [exEmailArticle, exPrinterArticle]
       (runOps [OpStartArticle 1 (Some exEmailArticle) ''t0'',
          OpSwitchToFallback ''no-such-fallback'' (Some exEmailArticle) [] ''t1''] newStepRunner)"
  by (simp add: runOps_def switchToFallback_activePath switchToFallback_selectedArticleId
      startArticle_state spec_activePathResolves_def exEmail_fallback_ids
      exPrinter_fallback_ids ex_article_ids)

section \<open>Retrieval\<close>

lemma tagScore_filter:
  "tagScore query a =
     3 * length (filter (\<lambda>tag. \<exists>token \<in> set (splitWhitespace [] (toLowerCase query)).
                                 includesStr (toLowerCase tag) token) (tagsOrEmpty a))"
  by (simp add: tagScore_def tagMatchesOf_def tagsOrEmpty_def list_ex_iff split: option.splits)

lemma scoreArticle_score:
  "rr_score (scoreArticle query a) =
     tagScore query a + (if productMatchOf (toLowerCase query) a then 2 else 0)
       + (if titleMatchOf (toLowerCase query) a then 1 else 0)
       + length (keywordMatchesOf (toLowerCase query) a)"
  by (simp add: scoreArticle_def tagScore_def Let_def)

lemma rankedResults_set:
  "set (rankedResults query articles) = {r \<in> scoreArticle query ` set articles. 0 < rr_score r}"
  by (auto simp: rankedResults_def)

lemma rankedResults_sorted:
  "sorted_wrt (\<lambda>r r'. rr_score r \<ge> rr_score r') (rankedResults query articles)"
proof -
  have "sorted (map (\<lambda>r. - int (rr_score r)) (rankedResults query articles))"
    unfolding rankedResults_def by (rule sorted_sort_key)
  then show ?thesis
    by (simp add: sorted_map)
qed

lemma rankedResults_stable:
  "filter (\<lambda>r. rr_score r = k) (rankedResults query articles) =
   filter (\<lambda>r. rr_score r = k) (filter (\<lambda>r. rr_score r > 0) (map (scoreArticle query) articles))"
proof -
  have "filter (\<lambda>r. - int (rr_score r) = - int k) (rankedResults query articles) =
   filter (\<lambda>r. - int (rr_score r) = - int k) (filter (\<lambda>r. rr_score r > 0) (map (scoreArticle query) articles))"
    unfolding rankedResults_def by (rule sort_key_stable)
  then show ?thesis by simp
qed

text \<open>
  Claim C7, as amended. The scorer adds 3 points for each tag of the article whose
  lower-cased text contains, as a substring, one of the whitespace-separated tokens of
  the lower-cased query; the score is the sum of the tag, product, title and keyword
  parts. The ranked results are the scored articles with a score above 0, in
  descending order of score; \<^verbatim>\<open>search\<close> returns their first 3 by default, and
  their first \<open>l\<close> for a limit \<open>l\<close> that is not negative.
\<close>

theorem search_scoring_and_order:
  "tagScore query a =
     3 * length (filter (\<lambda>tag. \<exists>token \<in> set (splitWhitespace [] (toLowerCase query)).
                                 includesStr (toLowerCase tag) token) (tagsOrEmpty a)) \<and>
   rr_score (scoreArticle query a) =
     tagScore query a + (if productMatchOf (toLowerCase query) a then 2 else 0)
       + (if titleMatchOf (toLowerCase query) a then 1 else 0)
       + length (keywordMatchesOf (toLowerCase query) a) \<and>
   set (rankedResults query articles) = {r \<in> scoreArticle query ` set articles. 0 < rr_score r} \<and>
   sorted_wrt (\<lambda>r r'. rr_score r \<ge> rr_score r') (rankedResults query articles) \<and>
   search query None articles = take 3 (rankedResults query articles) \<and>
   (0 \<le> l \<longrightarrow> search query (Some l) articles = take (nat l) (rankedResults query articles))"
  using tagScore_filter [of query a] scoreArticle_score [of query a]
    rankedResults_set [of query articles] rankedResults_sorted [of query articles]
  by (simp add: search_def limitOrDefault_def slice0_def)

lemma low_mail: "toLowerCase ''mail'' = ''mail''"
  by code_simp

lemma low_email: "toLowerCase ''email'' = ''email''"
  by code_simp

lemma split_mail: "splitWhitespace [] ''mail'' = [''mail'']"
  by (simp add: isSpace_def)

lemma split_email: "splitWhitespace [] ''email'' = [''email'']"
  by (simp add: isSpace_def)

text \<open>
  Claim C7 as stated fails. For the query "mail" and an article with the single tag
  "email", no token of the tag is equal to a token of the query, so token equality
  gives the tags 0 points; the source gives 3, since "email" contains "mail".
\<close>

theorem tagScore_substring_not_token:
  "tagsOrEmpty exEmailArticle = [''email''] \<and>
   \<not> spec_tagSharesToken ''mail'' ''email'' \<and>
   spec_tagScore ''mail'' exEmailArticle = 0 \<and>
   tagScore ''mail'' exEmailArticle = 3"
proof -
  have t: "tagsOrEmpty exEmailArticle = [''email'']" "art_tags exEmailArticle = Some [''email'']"
    by (simp_all add: tagsOrEmpty_def exEmailArticle_def)
  have n: "\<not> spec_tagSharesToken ''mail'' ''email''"
    unfolding spec_tagSharesToken_def low_mail low_email split_mail split_email by simp
  have i: "includesStr ''email'' ''mail''"
    by simp
  have s: "tagScore ''mail'' exEmailArticle = 3"
    unfolding tagScore_def tagMatchesOf_def t low_mail split_mail
    using i by (simp add: low_email)
  show ?thesis
    using n s by (simp add: t spec_tagScore_def)
qed

lemma toLowerChar_space: "isSpace c \<Longrightarrow> toLowerChar c = c"
  by (auto simp: isSpace_def toLowerChar_def Let_def)

lemma toLowerCase_whitespace:
  "\<forall>c \<in> set query. isSpace c \<Longrightarrow> toLowerCase query = query"
  by (simp add: toLowerCase_def toLowerChar_space map_idI)

lemma splitWhitespace_whitespace:
  "\<forall>c \<in> set query. isSpace c \<Longrightarrow> [] \<in> set (splitWhitespace [] query)"
  by (cases query) simp_all

lemma includesStr_empty: "includesStr s []"
  by (cases s) simp_all

lemma tagMatchesOf_whitespace:
  assumes "\<forall>c \<in> set query. isSpace c"
  shows "tagMatchesOf (splitWhitespace [] (toLowerCase query)) a = tagsOrEmpty a"
proof -
  have "[] \<in> set (splitWhitespace [] (toLowerCase query))"
    using assms by (simp add: toLowerCase_whitespace splitWhitespace_whitespace)
  then have "list_ex (\<lambda>token. includesStr (toLowerCase tag) token)
      (splitWhitespace [] (toLowerCase query))" for tag
    unfolding list_ex_iff using includesStr_empty by blast
  then show ?thesis
    by (simp add: tagMatchesOf_def tagsOrEmpty_def split: option.splits)
qed

lemma slice0_all: "int (length xs) \<le> l \<Longrightarrow> slice0 l xs = xs"
  by (simp add: slice0_def)

lemma slice0_nonempty: "xs \<noteq> [] \<Longrightarrow> 0 < l \<Longrightarrow> slice0 l xs \<noteq> []"
  by (cases xs) (auto simp: slice0_def take_Cons')

text \<open>
  Claim C10, as amended. For a query that is empty or consists only of whitespace,
  every tag of every article matches: the score of an article is 3 points for each tag
  it carries, plus its product, title and keyword parts, and all its tags are recorded
  as matches; so every tagged article has a score above 0 and is among the ranked
  results. \<^verbatim>\<open>search\<close> returns the ranked results cut to the limit: a tagged article
  of the corpus is returned whenever the limit is not below the number of ranked
  results, and the result is not empty whenever the limit is above 0 and the corpus
  has a tagged article.
\<close>

theorem search_whitespace_query:
  assumes "\<forall>c \<in> set query. isSpace c"
  shows "rr_score (scoreArticle query a) =
           3 * length (tagsOrEmpty a)
             + (if productMatchOf (toLowerCase query) a then 2 else 0)
             + (if titleMatchOf (toLowerCase query) a then 1 else 0)
             + length (keywordMatchesOf (toLowerCase query) a) \<and>
         tagMatches (rr_matchInfo (scoreArticle query a)) = tagsOrEmpty a \<and>
         3 * length (tagsOrEmpty a) \<le> rr_score (scoreArticle query a) \<and>
         tagScore query a = 3 * length (tagsOrEmpty a) \<and>
         (tagsOrEmpty a \<noteq> [] \<longrightarrow> 0 < rr_score (scoreArticle query a)) \<and>
         (a \<in> set articles \<and> tagsOrEmpty a \<noteq> [] \<longrightarrow>
            scoreArticle query a \<in> set (rankedResults query articles)) \<and>
         search query limit articles =
           slice0 (limitOrDefault limit) (rankedResults query articles) \<and>
         (a \<in> set articles \<and> tagsOrEmpty a \<noteq> [] \<and>
          int (length (rankedResults query articles)) \<le> limitOrDefault limit \<longrightarrow>
            scoreArticle query a \<in> set (search query limit articles)) \<and>
         (a \<in> set articles \<and> tagsOrEmpty a \<noteq> [] \<and> 0 < limitOrDefault limit \<longrightarrow>
            search query limit articles \<noteq> [])"
proof -
  have sc: "rr_score (scoreArticle query a) =
           3 * length (tagsOrEmpty a)
             + (if productMatchOf (toLowerCase query) a then 2 else 0)
             + (if titleMatchOf (toLowerCase query) a then 1 else 0)
             + length (keywordMatchesOf (toLowerCase query) a)"
    using assms by (simp add: scoreArticle_def Let_def tagMatchesOf_whitespace)
  have tm: "tagMatches (rr_matchInfo (scoreArticle query a)) = tagsOrEmpty a"
    using assms by (simp add: scoreArticle_def Let_def tagMatchesOf_whitespace)
  have lb: "3 * length (tagsOrEmpty a) \<le> rr_score (scoreArticle query a)"
    unfolding sc by simp
  have ts: "tagScore query a = 3 * length (tagsOrEmpty a)"
    using assms by (simp add: tagScore_def tagMatchesOf_whitespace)
  have pos: "0 < rr_score (scoreArticle query a)" if "tagsOrEmpty a \<noteq> []"
    using that lb by (cases "tagsOrEmpty a") simp_all
  have mem: "scoreArticle query a \<in> set (rankedResults query articles)"
    if "a \<in> set articles" "tagsOrEmpty a \<noteq> []"
    using that pos by (simp add: rankedResults_set)
  have all: "scoreArticle query a \<in> set (search query limit articles)"
    if "a \<in> set articles" "tagsOrEmpty a \<noteq> []"
      "int (length (rankedResults query articles)) \<le> limitOrDefault limit"
    using that mem by (simp add: search_def slice0_all)
  have ne: "search query limit articles \<noteq> []"
    if "a \<in> set articles" "tagsOrEmpty a \<noteq> []" "0 < limitOrDefault limit"
  proof -
    from mem that have "rankedResults query articles \<noteq> []" by auto
    with that(3) show ?thesis
      unfolding search_def by (intro slice0_nonempty)
  qed
  have se: "search query limit articles =
      slice0 (limitOrDefault limit) (rankedResults query articles)"
    by (simp add: search_def)
  show ?thesis
    using sc tm lb ts pos mem all ne se by blast
qed

lemma exTagged_score: "scoreArticle query (exTagged n) =
  \<lparr> rr_article = exTagged n,
    rr_score = 3 * length (tagMatchesOf (splitWhitespace [] (toLowerCase query)) (exTagged n)),
    rr_matchInfo = \<lparr> tagMatches = tagMatchesOf (splitWhitespace [] (toLowerCase query)) (exTagged n),
       productMatch = False, titleMatch = False, keywordMatches = [] \<rparr> \<rparr>"
  by (simp add: scoreArticle_def productMatchOf_def titleMatchOf_def
      keywordMatchesOf_def Let_def) (simp add: exTagged_def)

lemma exTagged_tags: "tagsOrEmpty (exTagged n) = [''network'']"
  by (simp add: tagsOrEmpty_def exTagged_def)

lemma exTagged_empty_query: "rr_score (scoreArticle [] (exTagged n)) = 3"
  by (simp add: exTagged_score tagMatchesOf_whitespace exTagged_tags)

lemma exTagged_ranked:
  "rankedResults [] [exTagged 1, exTagged 2, exTagged 3, exTagged 4] =
     [scoreArticle [] (exTagged 1), scoreArticle [] (exTagged 2),
      scoreArticle [] (exTagged 3), scoreArticle [] (exTagged 4)]"
  by (simp add: rankedResults_def exTagged_empty_query)

lemma scoreArticle_article: "rr_article (scoreArticle query a) = a"
  by (simp add: scoreArticle_def Let_def)

lemma exTagged_distinct: "m \<noteq> n \<Longrightarrow> scoreArticle query (exTagged m) \<noteq> scoreArticle query (exTagged n)"
proof
  assume "m \<noteq> n" and "scoreArticle query (exTagged m) = scoreArticle query (exTagged n)"
  then have "rr_article (scoreArticle query (exTagged m)) = rr_article (scoreArticle query (exTagged n))"
    by simp
  then have "art_id (exTagged m) = art_id (exTagged n)"
    by (simp only: scoreArticle_article)
  with \<open>m \<noteq> n\<close> show False
    by (simp add: exTagged_def)
qed

text \<open>
  Claim C10 as stated fails. With four tagged articles, the empty query and the
  default limit, each article scores 3, and \<^verbatim>\<open>search\<close> returns the first three:
  the fourth tagged article is not returned.
\<close>

theorem search_empty_query_truncated:
  "tagsOrEmpty (exTagged 4) = [''network''] \<and>
   rr_score (scoreArticle [] (exTagged 4)) = 3 \<and>
   search [] None [exTagged 1, exTagged 2, exTagged 3, exTagged 4] =
     [scoreArticle [] (exTagged 1), scoreArticle [] (exTagged 2),
      scoreArticle [] (exTagged 3)] \<and>
   scoreArticle [] (exTagged 4) \<notin>
     set (search [] None [exTagged 1, exTagged 2, exTagged 3, exTagged 4])"
proof -
  have s: "search [] None [exTagged 1, exTagged 2, exTagged 3, exTagged 4] =
     [scoreArticle [] (exTagged 1), scoreArticle [] (exTagged 2),
      scoreArticle [] (exTagged 3)]"
    by (simp add: search_def exTagged_ranked limitOrDefault_def slice0_def)
  show ?thesis
    by (simp add: s exTagged_tags exTagged_empty_query exTagged_distinct)
qed

lemma exTwoTags_parts:
  "tagsOrEmpty exTwoTags = [''network'', ''wifi'']"
  "\<not> productMatchOf (toLowerCase '' '') exTwoTags"
  "titleMatchOf (toLowerCase '' '') exTwoTags"
  "keywordMatchesOf (toLowerCase '' '') exTwoTags = []"
proof -
  have low: "toLowerCase ''Network down'' = ''network down''" "toLowerCase '' '' = '' ''"
    by code_simp+
  have inc: "includesStr ''network down'' '' ''"
    by simp
  show "tagsOrEmpty exTwoTags = [''network'', ''wifi'']"
    by (simp add: tagsOrEmpty_def exTwoTags_def)
  show "\<not> productMatchOf (toLowerCase '' '') exTwoTags"
    by (simp add: productMatchOf_def exTwoTags_def)
  show "titleMatchOf (toLowerCase '' '') exTwoTags"
    using inc by (simp add: titleMatchOf_def exTwoTags_def low)
  show "keywordMatchesOf (toLowerCase '' '') exTwoTags = []"
    by (simp add: keywordMatchesOf_def exTwoTags_def)
qed

theorem search_whitespace_query_witness:
  "list_all isSpace '' '' \<and>
   tagsOrEmpty exTwoTags = [''network'', ''wifi''] \<and>
   exTwoTags \<in> set [exTagged 1, exTwoTags] \<and>
   int (length (rankedResults '' '' [exTagged 1, exTwoTags])) \<le> limitOrDefault None \<and>
   rr_score (scoreArticle '' '' exTwoTags) = 7 \<and>
   tagMatches (rr_matchInfo (scoreArticle '' '' exTwoTags)) = [''network'', ''wifi''] \<and>
   scoreArticle '' '' exTwoTags \<in> set (search '' '' None [exTagged 1, exTwoTags])"
proof -
  have h: "\<forall>c \<in> set '' ''. isSpace c"
    by (simp add: isSpace_def)
  have h': "list_all isSpace '' ''"
    by (simp add: isSpace_def)
  have m: "exTwoTags \<in> set [exTagged 1, exTwoTags]"
    by simp
  have "length (rankedResults '' '' [exTagged 1, exTwoTags]) \<le> length [exTagged 1, exTwoTags]"
    unfolding rankedResults_def length_sort
    by (rule le_trans [OF length_filter_le]) simp
  then have l: "int (length (rankedResults '' '' [exTagged 1, exTwoTags])) \<le> limitOrDefault None"
    by (simp add: limitOrDefault_def)
  have t: "tagsOrEmpty exTwoTags \<noteq> []"
    by (simp add: exTwoTags_parts)
  note inst = search_whitespace_query [OF h, of exTwoTags "[exTagged 1, exTwoTags]" None]
  from inst have A: "rr_score (scoreArticle '' '' exTwoTags) = 7"
    by (simp add: exTwoTags_parts)
  from inst have B: "tagMatches (rr_matchInfo (scoreArticle '' '' exTwoTags)) = [''network'', ''wifi'']"
    by (simp add: exTwoTags_parts)
  from inst m t l have C: "scoreArticle '' '' exTwoTags \<in>
      set (search '' '' None [exTagged 1, exTwoTags])"
    by blast
  show ?thesis
    using h' m l A B C exTwoTags_parts(1) by blast
qed


lemma low_query: "toLowerCase ''Email not sending SMTP'' = ''email not sending smtp''"
  by code_simp

lemma split_query:
  "splitWhitespace [] ''email not sending smtp'' = [''email'', ''not'', ''sending'', ''smtp'']"
  by (simp add: isSpace_def)

theorem search_scoring_and_order_witness:
  "(0::int) \<le> 3 \<and>
   search ''Email not sending SMTP'' (Some 3) [exPrinterArticle, exEmailArticle] =
     take 3 (rankedResults ''Email not sending SMTP'' [exPrinterArticle, exEmailArticle]) \<and>
   tagScore ''Email not sending SMTP'' exEmailArticle = 3"
proof -
  have t: "tagsOrEmpty exEmailArticle = [''email'']"
    by (simp add: tagsOrEmpty_def exEmailArticle_def)
  have i: "includesStr ''email'' ''email''"
    by simp
  note inst = search_scoring_and_order [of "''Email not sending SMTP''" exEmailArticle
      "[exPrinterArticle, exEmailArticle]" 3]
  from inst have A: "search ''Email not sending SMTP'' (Some 3) [exPrinterArticle, exEmailArticle] =
     take 3 (rankedResults ''Email not sending SMTP'' [exPrinterArticle, exEmailArticle])"
    by simp
  from inst have "tagScore ''Email not sending SMTP'' exEmailArticle =
      3 * length (filter (\<lambda>tag. \<exists>token \<in> set (splitWhitespace [] (toLowerCase ''Email not sending SMTP'')).
                                 includesStr (toLowerCase tag) token) (tagsOrEmpty exEmailArticle))"
    by blast
  also have "\<dots> = 3"
    unfolding t low_query split_query using i by (simp add: low_email)
  finally show ?thesis
    using A by simp
qed

text \<open>
  The retrieval scenario of the specification: the e-mail article scores 4 (a tag and a
  keyword) and the printer article, with a score of 0, is left out.
\<close>

lemma search_scenario:
  "map (\<lambda>r. (art_id (rr_article r), rr_score r))
     (search ''Email not sending SMTP'' None [exPrinterArticle, exEmailArticle]) = [(1, 4)]"
  by code_simp

end
